theory Spec2Isabelle
  imports Complex_Main "HOL-Library.Sublist"
begin

section \<open>Values of the lineup files\<close>

text \<open>
  The program reads JSON files with \<^verbatim>\<open>json.load\<close> and works on the Python values it
  returns. A JSON number becomes a Python \<^verbatim>\<open>int\<close> or \<^verbatim>\<open>float\<close>; \<^verbatim>\<open>json.load\<close> also
  accepts \<^verbatim>\<open>Infinity\<close>, \<^verbatim>\<open>-Infinity\<close> and \<^verbatim>\<open>NaN\<close>. Finite numbers are modelled as exact
  reals (rounding and overflow of binary floating point are outside this model); the
  three special floats are kept, with the arithmetic and comparisons Python gives them.
\<close>

datatype number = Fin real | PosInf | NegInf | NaN

datatype pyval =
    VNone
  | VBool bool
  | VNum number
  | VStr string
  | VList "pyval list"
  | VDict "(string \<times> pyval) list"

text \<open>A lineup is a dictionary with string keys, in insertion order.\<close>

type_synonym lineup = "(string \<times> pyval) list"

datatype error = TypeError | IndexError | KeyError | ValueError

text \<open>
  The outcome of a call: \<open>None\<close> when the call never returns, \<open>Some (Inl e)\<close> when it
  raises \<open>e\<close>, \<open>Some (Inr v)\<close> when it returns \<open>v\<close>.
\<close>

type_synonym 'a outcome = "(error + 'a) option"

definition returns :: "'a \<Rightarrow> 'a outcome" where
  "returns v = Some (Inr v)"

definition raises :: "error \<Rightarrow> 'a outcome" where
  "raises e = Some (Inl e)"

definition bind_outcome :: "'a outcome \<Rightarrow> ('a \<Rightarrow> 'b outcome) \<Rightarrow> 'b outcome" where
  "bind_outcome m f =
     (case m of None \<Rightarrow> None | Some (Inl e) \<Rightarrow> Some (Inl e) | Some (Inr v) \<Rightarrow> f v)"

subsection \<open>Arithmetic and comparison of Python numbers\<close>

fun num_add :: "number \<Rightarrow> number \<Rightarrow> number" where
  "num_add NaN _ = NaN"
| "num_add _ NaN = NaN"
| "num_add (Fin x) (Fin y) = Fin (x + y)"
| "num_add PosInf NegInf = NaN"
| "num_add NegInf PosInf = NaN"
| "num_add PosInf _ = PosInf"
| "num_add NegInf _ = NegInf"
| "num_add (Fin x) PosInf = PosInf"
| "num_add (Fin x) NegInf = NegInf"

fun num_sub :: "number \<Rightarrow> number \<Rightarrow> number" where
  "num_sub NaN _ = NaN"
| "num_sub _ NaN = NaN"
| "num_sub (Fin x) (Fin y) = Fin (x - y)"
| "num_sub PosInf PosInf = NaN"
| "num_sub NegInf NegInf = NaN"
| "num_sub PosInf _ = PosInf"
| "num_sub NegInf _ = NegInf"
| "num_sub (Fin x) PosInf = NegInf"
| "num_sub (Fin x) NegInf = PosInf"

text \<open>\<^verbatim>\<open>x ** 2\<close>\<close>

fun num_pow2 :: "number \<Rightarrow> number" where
  "num_pow2 (Fin x) = Fin (x ^ 2)"
| "num_pow2 PosInf = PosInf"
| "num_pow2 NegInf = PosInf"
| "num_pow2 NaN = NaN"

fun num_abs :: "number \<Rightarrow> number" where
  "num_abs (Fin x) = Fin \<bar>x\<bar>"
| "num_abs PosInf = PosInf"
| "num_abs NegInf = PosInf"
| "num_abs NaN = NaN"

text \<open>Every comparison with \<^verbatim>\<open>nan\<close> is false.\<close>

fun num_le :: "number \<Rightarrow> number \<Rightarrow> bool" where
  "num_le NaN _ = False"
| "num_le _ NaN = False"
| "num_le (Fin x) (Fin y) = (x \<le> y)"
| "num_le NegInf _ = True"
| "num_le _ PosInf = True"
| "num_le PosInf _ = False"
| "num_le (Fin x) NegInf = False"

fun num_lt :: "number \<Rightarrow> number \<Rightarrow> bool" where
  "num_lt NaN _ = False"
| "num_lt _ NaN = False"
| "num_lt (Fin x) (Fin y) = (x < y)"
| "num_lt PosInf _ = False"
| "num_lt _ NegInf = False"
| "num_lt NegInf _ = True"
| "num_lt (Fin x) PosInf = True"

definition num_gt :: "number \<Rightarrow> number \<Rightarrow> bool" where
  "num_gt a b = num_lt b a"

text \<open>\<^verbatim>\<open>math.sqrt\<close> raises \<^verbatim>\<open>ValueError\<close> on a negative argument.\<close>

fun math_sqrt :: "number \<Rightarrow> error + number" where
  "math_sqrt (Fin x) = (if x < 0 then Inl ValueError else Inr (Fin (sqrt x)))"
| "math_sqrt PosInf = Inr PosInf"
| "math_sqrt NegInf = Inl ValueError"
| "math_sqrt NaN = Inr NaN"

subsection \<open>Operations on Python values\<close>

text \<open>\<^verbatim>\<open>bool\<close> is a subclass of \<^verbatim>\<open>int\<close>: \<^verbatim>\<open>True\<close> and \<^verbatim>\<open>False\<close> compute as 1 and 0.\<close>

fun as_number :: "pyval \<Rightarrow> number option" where
  "as_number (VNum n) = Some n"
| "as_number (VBool b) = Some (Fin (if b then 1 else 0))"
| "as_number _ = None"

text \<open>\<^verbatim>\<open>a - b\<close>: a \<^verbatim>\<open>TypeError\<close> unless both operands are numbers.\<close>

definition py_sub :: "pyval \<Rightarrow> pyval \<Rightarrow> error + number" where
  "py_sub a b =
     (case as_number a of
        None \<Rightarrow> Inl TypeError
      | Some x \<Rightarrow> (case as_number b of None \<Rightarrow> Inl TypeError | Some y \<Rightarrow> Inr (num_sub x y)))"

text \<open>
  \<^verbatim>\<open>iter(v)\<close>: a list yields its elements, a string its characters, a dictionary its
  keys; the other values are not iterable.
\<close>

fun py_iter :: "pyval \<Rightarrow> error + pyval list" where
  "py_iter (VList xs) = Inr xs"
| "py_iter (VStr s) = Inr (map (\<lambda>c. VStr [c]) s)"
| "py_iter (VDict d) = Inr (map (\<lambda>kv. VStr (fst kv)) d)"
| "py_iter _ = Inl TypeError"

text \<open>
  \<^verbatim>\<open>v[i]\<close> for the literal indices 0 and 1: out of range is an \<^verbatim>\<open>IndexError\<close>, a
  dictionary (whose keys are strings) has no key \<open>i\<close>, the other values are not
  subscriptable.
\<close>

fun py_getitem :: "pyval \<Rightarrow> nat \<Rightarrow> error + pyval" where
  "py_getitem (VList xs) i = (if i < length xs then Inr (xs ! i) else Inl IndexError)"
| "py_getitem (VStr s) i = (if i < length s then Inr (VStr [s ! i]) else Inl IndexError)"
| "py_getitem (VDict d) i = Inl KeyError"
| "py_getitem _ i = Inl TypeError"

text \<open>\<^verbatim>\<open>key in d\<close> and \<^verbatim>\<open>d[key]\<close> on a dictionary.\<close>

definition dict_contains :: "string \<Rightarrow> lineup \<Rightarrow> bool" where
  "dict_contains k d = (map_of d k \<noteq> None)"

definition dict_getitem :: "lineup \<Rightarrow> string \<Rightarrow> error + pyval" where
  "dict_getitem d k = (case map_of d k of None \<Rightarrow> Inl KeyError | Some v \<Rightarrow> Inr v)"

section \<open>The similarity test\<close>

subsection \<open>\<^verbatim>\<open>calculate_distance\<close>\<close>

text \<open>
  \<^verbatim>\<open>sum((a - b) ** 2 for a, b in zip(pos1, pos2))\<close>: \<^verbatim>\<open>sum\<close> starts from 0 and pulls the
  generator pair by pair, so the first pair that cannot be subtracted raises.
\<close>

fun sum_squares :: "number \<Rightarrow> (pyval \<times> pyval) list \<Rightarrow> error + number" where
  "sum_squares acc [] = Inr acc"
| "sum_squares acc ((a, b) # rest) =
     (case py_sub a b of
        Inl e \<Rightarrow> Inl e
      | Inr d \<Rightarrow> sum_squares (num_add acc (num_pow2 d)) rest)"

definition calculate_distance :: "pyval \<Rightarrow> pyval \<Rightarrow> error + number" where
  "calculate_distance pos1 pos2 =
     (case py_iter pos1 of
        Inl e \<Rightarrow> Inl e
      | Inr xs \<Rightarrow>
          (case py_iter pos2 of
             Inl e \<Rightarrow> Inl e
           | Inr ys \<Rightarrow>
               (case sum_squares (Fin 0) (zip xs ys) of
                  Inl e \<Rightarrow> Inl e
                | Inr s \<Rightarrow> math_sqrt s)))"

subsection \<open>\<^verbatim>\<open>calculate_angle_difference\<close>\<close>

text \<open>
  The two \<^verbatim>\<open>while\<close> loops of \<^verbatim>\<open>normalize_angle\<close>. Neither is bounded by the code, so
  each is a partial function: \<open>None\<close> is a loop that runs forever.
\<close>

partial_function (option) normalize_angle_down :: "number \<Rightarrow> number option" where
  "normalize_angle_down angle =
     (if num_gt angle (Fin 180) then normalize_angle_down (num_sub angle (Fin 360))
      else Some angle)"

partial_function (option) normalize_angle_up :: "number \<Rightarrow> number option" where
  "normalize_angle_up angle =
     (if num_lt angle (Fin (- 180)) then normalize_angle_up (num_add angle (Fin 360))
      else Some angle)"

definition normalize_angle :: "number \<Rightarrow> number option" where
  "normalize_angle angle =
     (case normalize_angle_down angle of None \<Rightarrow> None | Some a \<Rightarrow> normalize_angle_up a)"

text \<open>\<^verbatim>\<open>abs(normalize_angle(angle1[i] - angle2[i]))\<close>, evaluated left to right.\<close>

definition axis_diff :: "pyval \<Rightarrow> pyval \<Rightarrow> nat \<Rightarrow> number outcome" where
  "axis_diff angle1 angle2 i =
     (case py_getitem angle1 i of
        Inl e \<Rightarrow> raises e
      | Inr a \<Rightarrow>
          (case py_getitem angle2 i of
             Inl e \<Rightarrow> raises e
           | Inr b \<Rightarrow>
               (case py_sub a b of
                  Inl e \<Rightarrow> raises e
                | Inr d \<Rightarrow>
                    (case normalize_angle d of
                       None \<Rightarrow> None
                     | Some n \<Rightarrow> returns (num_abs n)))))"

definition calculate_angle_difference :: "pyval \<Rightarrow> pyval \<Rightarrow> number outcome" where
  "calculate_angle_difference angle1 angle2 =
     bind_outcome (axis_diff angle1 angle2 0) (\<lambda>pitch_diff.
     bind_outcome (axis_diff angle1 angle2 1) (\<lambda>yaw_diff0.
       let yaw_diff = (if num_gt yaw_diff0 (Fin 180) then num_sub (Fin 360) yaw_diff0
                       else yaw_diff0)
       in Some (math_sqrt (num_add (num_pow2 pitch_diff) (num_pow2 yaw_diff)))))"

subsection \<open>\<^verbatim>\<open>is_similar_lineup\<close>\<close>

definition is_similar_lineup :: "number \<Rightarrow> number \<Rightarrow> lineup \<Rightarrow> lineup \<Rightarrow> bool outcome" where
  "is_similar_lineup max_pos max_angle lineup1 lineup2 =
     (if \<not> dict_contains ''position'' lineup1 \<or> \<not> dict_contains ''position'' lineup2
      then returns False
      else if \<not> dict_contains ''viewangles'' lineup1 \<or> \<not> dict_contains ''viewangles'' lineup2
      then returns False
      else
        bind_outcome (Some (dict_getitem lineup1 ''position'')) (\<lambda>p1.
        bind_outcome (Some (dict_getitem lineup2 ''position'')) (\<lambda>p2.
        bind_outcome (Some (calculate_distance p1 p2)) (\<lambda>pos_distance.
        bind_outcome (Some (dict_getitem lineup1 ''viewangles'')) (\<lambda>a1.
        bind_outcome (Some (dict_getitem lineup2 ''viewangles'')) (\<lambda>a2.
        bind_outcome (calculate_angle_difference a1 a2) (\<lambda>angle_diff.
          returns (num_le pos_distance max_pos \<and> num_le angle_diff max_angle))))))))"

section \<open>Merging a batch of lineups\<close>

subsection \<open>The inner loop\<close>

text \<open>
  \<^verbatim>\<open>for existing_lineup in result: if is_similar_lineup(...): is_duplicate = True; break\<close>.
  The value is the final \<^verbatim>\<open>is_duplicate\<close>. The body does not change \<^verbatim>\<open>result\<close>, so the
  loop runs over the list as it stands when the loop starts.
\<close>

fun scan_result :: "number \<Rightarrow> number \<Rightarrow> lineup \<Rightarrow> lineup list \<Rightarrow> bool outcome" where
  "scan_result max_pos max_angle new_lineup [] = returns False"
| "scan_result max_pos max_angle new_lineup (existing_lineup # rest) =
     (case is_similar_lineup max_pos max_angle new_lineup existing_lineup of
        None \<Rightarrow> None
      | Some (Inl e) \<Rightarrow> Some (Inl e)
      | Some (Inr True) \<Rightarrow> returns True
      | Some (Inr False) \<Rightarrow> scan_result max_pos max_angle new_lineup rest)"

subsection \<open>List objects\<close>

text \<open>
  Python lists are objects, passed by reference and changed in place. The store holds
  the list objects; a reference is an index into it, and a new object is allocated at
  the end. The lineups themselves are never changed, so a list holds them as values.
\<close>

type_synonym heap = "lineup list list"

text \<open>
  A call that returns or raises leaves a store behind; \<open>None\<close> is a call that never
  returns.
\<close>

type_synonym 'a heap_outcome = "(heap \<times> (error + 'a)) option"

text \<open>\<^verbatim>\<open>xs.copy()\<close>\<close>

definition list_copy :: "heap \<Rightarrow> nat \<Rightarrow> heap \<times> nat" where
  "list_copy h r = (h @ [h ! r], length h)"

text \<open>\<^verbatim>\<open>xs.append(x)\<close>\<close>

definition list_append :: "heap \<Rightarrow> nat \<Rightarrow> lineup \<Rightarrow> heap" where
  "list_append h r x = h[r := h ! r @ [x]]"

subsection \<open>\<^verbatim>\<open>merge_lineups\<close>\<close>

text \<open>
  \<^verbatim>\<open>for new_lineup in new_lineups\<close> walks the list object by index and reads it afresh
  at every step, while the body appends to \<^verbatim>\<open>result\<close>. Nothing in the loop itself bounds
  the walk (it would not end if both names meant one object), so the loop is a partial
  function.
\<close>

partial_function (option) merge_loop ::
  "number \<Rightarrow> number \<Rightarrow> nat \<Rightarrow> nat \<Rightarrow> nat \<Rightarrow> heap \<Rightarrow> nat \<Rightarrow> nat \<Rightarrow> (nat \<times> nat) heap_outcome" where
  "merge_loop max_pos max_angle result new_lineups i h lineups_added duplicates_skipped =
     (if i < length (h ! new_lineups) then
        (let new_lineup = h ! new_lineups ! i in
         case scan_result max_pos max_angle new_lineup (h ! result) of
           None \<Rightarrow> None
         | Some (Inl e) \<Rightarrow> Some (h, Inl e)
         | Some (Inr is_duplicate) \<Rightarrow>
             if is_duplicate
             then merge_loop max_pos max_angle result new_lineups (i + 1) h
                    lineups_added (duplicates_skipped + 1)
             else merge_loop max_pos max_angle result new_lineups (i + 1)
                    (list_append h result new_lineup) (lineups_added + 1) duplicates_skipped)
      else Some (h, Inr (lineups_added, duplicates_skipped)))"

text \<open>The two counters are not returned: the line that printed them is commented out.\<close>

definition merge_lineups ::
  "number \<Rightarrow> number \<Rightarrow> heap \<Rightarrow> nat \<Rightarrow> nat \<Rightarrow> nat heap_outcome" where
  "merge_lineups max_pos max_angle h existing_lineups new_lineups =
     (let (h1, result) = list_copy h existing_lineups in
      case merge_loop max_pos max_angle result new_lineups 0 h1 0 0 of
        None \<Rightarrow> None
      | Some (h2, Inl e) \<Rightarrow> Some (h2, Inl e)
      | Some (h2, Inr counters) \<Rightarrow> Some (h2, Inr result))"

text \<open>
  The list a call returns, for arguments given as values: the call is run in a store that
  holds the two lists, and the returned reference is read in the final store.
\<close>

definition merge :: "number \<Rightarrow> number \<Rightarrow> lineup list \<Rightarrow> lineup list \<Rightarrow> lineup list outcome" where
  "merge max_pos max_angle existing candidates =
     (case merge_lineups max_pos max_angle [existing, candidates] 0 1 of
        None \<Rightarrow> None
      | Some (h, Inl e) \<Rightarrow> raises e
      | Some (h, Inr result) \<Rightarrow> returns (h ! result))"

section \<open>The specification's vocabulary\<close>

text \<open>
  A position is a triple of reals and an orientation a pair (pitch, yaw); in a lineup
  they are lists of finite numbers under the keys \<^verbatim>\<open>position\<close> and \<^verbatim>\<open>viewangles\<close>.
\<close>

definition position3 :: "real \<times> real \<times> real \<Rightarrow> pyval" where
  "position3 p = (case p of (x, y, z) \<Rightarrow> VList [VNum (Fin x), VNum (Fin y), VNum (Fin z)])"

definition angles2 :: "real \<times> real \<Rightarrow> pyval" where
  "angles2 v = (case v of (pitch, yaw) \<Rightarrow> VList [VNum (Fin pitch), VNum (Fin yaw)])"

definition well_formed :: "lineup \<Rightarrow> real \<times> real \<times> real \<Rightarrow> real \<times> real \<Rightarrow> bool" where
  "well_formed l pos ang =
     (map_of l ''position'' = Some (position3 pos) \<and> map_of l ''viewangles'' = Some (angles2 ang))"

text \<open>The Euclidean distance of two positions, as the specification writes it.\<close>

definition spec_position_distance :: "real \<times> real \<times> real \<Rightarrow> real \<times> real \<times> real \<Rightarrow> real" where
  "spec_position_distance a b =
     (case a of (ax, ay, az) \<Rightarrow> case b of (bx, by, bz) \<Rightarrow>
        sqrt ((ax - bx)\<^sup>2 + (ay - by)\<^sup>2 + (az - bz)\<^sup>2))"

text \<open>
  The single centred reduction modulo 360: the value in the half-open interval from
  -180 (excluded) to 180 (included) that differs from \<open>d\<close> by a multiple of 360.
\<close>

definition spec_centered_mod :: "real \<Rightarrow> real" where
  "spec_centered_mod d = d - 360 * of_int \<lceil>(d - 180) / 360\<rceil>"

definition spec_axis_difference :: "real \<Rightarrow> real \<Rightarrow> real" where
  "spec_axis_difference x y = \<bar>spec_centered_mod (x - y)\<bar>"

definition spec_yaw_fold :: "real \<Rightarrow> real" where
  "spec_yaw_fold v = (if v > 180 then 360 - v else v)"

definition spec_angular_distance :: "real \<times> real \<Rightarrow> real \<times> real \<Rightarrow> real" where
  "spec_angular_distance a b =
     (case a of (pitch_a, yaw_a) \<Rightarrow> case b of (pitch_b, yaw_b) \<Rightarrow>
        sqrt ((spec_axis_difference pitch_a pitch_b)\<^sup>2
              + (spec_yaw_fold (spec_axis_difference yaw_a yaw_b))\<^sup>2))"

text \<open>The two candidates of the specification's merge scenario.\<close>

definition scenario_first :: lineup where
  "scenario_first = [(''position'', position3 (0, 0, 0)), (''viewangles'', angles2 (0, 0))]"

definition scenario_second :: lineup where
  "scenario_second = [(''position'', position3 (1, 0, 0)), (''viewangles'', angles2 (0, 0))]"

text \<open>A lineup that has neither a position nor an orientation.\<close>

definition bare_lineup :: lineup where
  "bare_lineup = [(''name'', VStr ''smoke'')]"

text \<open>
  Two outcomes agree when both calls return the same value, or both raise, or neither
  returns; the class of the exception is not compared.
\<close>

definition same_outcome :: "'a outcome \<Rightarrow> 'a outcome \<Rightarrow> bool" where
  "same_outcome r1 r2 =
     (case r1 of
        None \<Rightarrow> r2 = None
      | Some (Inl e) \<Rightarrow> (case r2 of Some (Inl e') \<Rightarrow> True | _ \<Rightarrow> False)
      | Some (Inr v) \<Rightarrow> r2 = Some (Inr v))"

text \<open>
  What the code itself rejects in a position or an orientation. A value is a number when
  Python can subtract it (\<^verbatim>\<open>int\<close>, \<^verbatim>\<open>float\<close>, \<^verbatim>\<open>bool\<close>). Positions are paired by \<^verbatim>\<open>zip\<close>, up
  to the shorter one; of an orientation only the items 0 and 1 are read.
\<close>

definition numeric :: "pyval \<Rightarrow> bool" where
  "numeric v = (as_number v \<noteq> None)"

definition position_fault :: "pyval \<Rightarrow> pyval \<Rightarrow> bool" where
  "position_fault pos1 pos2 =
     (case py_iter pos1 of
        Inl e \<Rightarrow> True
      | Inr xs \<Rightarrow>
          (case py_iter pos2 of
             Inl e \<Rightarrow> True
           | Inr ys \<Rightarrow> list_ex (\<lambda>(x, y). \<not> numeric x \<or> \<not> numeric y) (zip xs ys)))"

definition item_fault :: "pyval \<Rightarrow> nat \<Rightarrow> bool" where
  "item_fault v i = (case py_getitem v i of Inl e \<Rightarrow> True | Inr x \<Rightarrow> \<not> numeric x)"

definition viewangles_fault :: "pyval \<Rightarrow> pyval \<Rightarrow> bool" where
  "viewangles_fault angle1 angle2 =
     (item_fault angle1 0 \<or> item_fault angle2 0 \<or> item_fault angle1 1 \<or> item_fault angle2 1)"

text \<open>
  A lineup has finite orientation components when no item of its \<^verbatim>\<open>viewangles\<close> list is
  an infinity or a NaN.
\<close>

fun finite_entry :: "pyval \<Rightarrow> bool" where
  "finite_entry (VNum (Fin x)) = True"
| "finite_entry (VNum n) = False"
| "finite_entry v = True"

definition finite_viewangles :: "lineup \<Rightarrow> bool" where
  "finite_viewangles l =
     (case map_of l ''viewangles'' of Some (VList xs) \<Rightarrow> list_all finite_entry xs | _ \<Rightarrow> True)"

section \<open>Auxiliary functions of the proofs\<close>

text \<open>The value each loop of \<^verbatim>\<open>normalize_angle\<close> ends with on a finite angle.\<close>

definition down_val :: "real \<Rightarrow> real" where
  "down_val x = x - 360 * real (nat \<lceil>(x - 180) / 360\<rceil>)"

definition up_val :: "real \<Rightarrow> real" where
  "up_val x = x + 360 * real (nat \<lceil>(- 180 - x) / 360\<rceil>)"

definition norm_val :: "real \<Rightarrow> real" where
  "norm_val x = up_val (down_val x)"

text \<open>
  The outer loop of \<^verbatim>\<open>merge_lineups\<close> on values: the list built so far, and the exception
  if one stopped the loop.
\<close>

fun merge_from ::
  "number \<Rightarrow> number \<Rightarrow> lineup list \<Rightarrow> lineup list \<Rightarrow> (lineup list \<times> error option) option" where
  "merge_from p q R [] = Some (R, None)"
| "merge_from p q R (c # cs) =
     (case scan_result p q c R of
        None \<Rightarrow> None
      | Some (Inl e) \<Rightarrow> Some (R, Some e)
      | Some (Inr dup) \<Rightarrow> merge_from p q (if dup then R else R @ [c]) cs)"

definition loop_status :: "(nat \<times> nat) heap_outcome \<Rightarrow> (heap \<times> error option) option" where
  "loop_status r = map_option (\<lambda>(h, x). (h, case x of Inl e \<Rightarrow> Some e | Inr c \<Rightarrow> None)) r"

text \<open>The two distances \<^verbatim>\<open>is_similar_lineup\<close> compares with its thresholds.\<close>

definition lineup_metrics :: "lineup \<Rightarrow> lineup \<Rightarrow> (number \<times> number) outcome" where
  "lineup_metrics lineup1 lineup2 =
     bind_outcome (Some (dict_getitem lineup1 ''position'')) (\<lambda>p1.
     bind_outcome (Some (dict_getitem lineup2 ''position'')) (\<lambda>p2.
     bind_outcome (Some (calculate_distance p1 p2)) (\<lambda>pos_distance.
     bind_outcome (Some (dict_getitem lineup1 ''viewangles'')) (\<lambda>a1.
     bind_outcome (Some (dict_getitem lineup2 ''viewangles'')) (\<lambda>a2.
     bind_outcome (calculate_angle_difference a1 a2) (\<lambda>angle_diff.
       returns (pos_distance, angle_diff)))))))"

definition missing_field :: "lineup \<Rightarrow> lineup \<Rightarrow> bool" where
  "missing_field a b =
     (\<not> dict_contains ''position'' a \<or> \<not> dict_contains ''position'' b
      \<or> \<not> dict_contains ''viewangles'' a \<or> \<not> dict_contains ''viewangles'' b)"

text \<open>The arguments on which \<^verbatim>\<open>math.sqrt\<close> does not raise.\<close>

fun nonneg_number :: "number \<Rightarrow> bool" where
  "nonneg_number (Fin x) = (0 \<le> x)"
| "nonneg_number NegInf = False"
| "nonneg_number n = True"

text \<open>An orientation value without an infinity or a NaN among its items.\<close>

definition finite_angles :: "pyval \<Rightarrow> bool" where
  "finite_angles v = (case v of VList xs \<Rightarrow> list_all finite_entry xs | _ \<Rightarrow> True)"

text \<open>
  The accepted candidates as the specification describes them: the candidates are taken
  in order, and one is accepted when no lineup of the result built so far is similar to
  it; it then joins that result.
\<close>

fun spec_accepted :: "(lineup \<Rightarrow> lineup \<Rightarrow> bool) \<Rightarrow> lineup list \<Rightarrow> lineup list \<Rightarrow> lineup list" where
  "spec_accepted sim result [] = []"
| "spec_accepted sim result (c # cs) =
     (if list_ex (sim c) result then spec_accepted sim result cs
      else c # spec_accepted sim (result @ [c]) cs)"

text \<open>Similar in the sense of a call that returns true.\<close>

definition similar :: "number \<Rightarrow> number \<Rightarrow> lineup \<Rightarrow> lineup \<Rightarrow> bool" where
  "similar p q c e = (is_similar_lineup p q c e = returns True)"

text \<open>A lineup on the x axis, looking straight ahead.\<close>

definition line_lineup :: "real \<Rightarrow> lineup" where
  "line_lineup x = [(''position'', position3 (x, 0, 0)), (''viewangles'', angles2 (0, 0))]"

section \<open>The normalisation loops\<close>

lemma normalize_angle_down_Fin: "normalize_angle_down (Fin x) = Some (Fin (down_val x))"
proof (induction "nat \<lceil>(x - 180) / 360\<rceil>" arbitrary: x)
  case 0
  then have "x \<le> 180" by (simp add: field_simps)
  then show ?case using 0
    by (subst normalize_angle_down.simps) (simp add: num_gt_def down_val_def)
next
  case (Suc k)
  then have "0 < \<lceil>(x - 180) / 360\<rceil>" by linarith
  then have gt: "x > 180" by (simp add: zero_less_ceiling)
  have "(x - 360 - 180) / 360 = (x - 180) / 360 - 1" by (simp add: field_simps)
  then have c: "\<lceil>(x - 360 - 180) / 360\<rceil> = \<lceil>(x - 180) / 360\<rceil> - 1"
    by (metis ceiling_diff_one)
  with Suc(2) have k: "k = nat \<lceil>(x - 360 - 180) / 360\<rceil>" by linarith
  have "normalize_angle_down (Fin (x - 360)) = Some (Fin (down_val (x - 360)))"
    using Suc(1)[OF k] .
  moreover have "down_val (x - 360) = down_val x"
  proof -
    have "real (nat \<lceil>(x - 180) / 360\<rceil>) = real k + 1" using Suc(2) by (simp flip: of_nat_Suc)
    moreover have "real (nat \<lceil>(x - 360 - 180) / 360\<rceil>) = real k" using k by simp
    ultimately show ?thesis unfolding down_val_def by (simp add: algebra_simps)
  qed
  ultimately show ?case using gt
    by (subst normalize_angle_down.simps) (simp add: num_gt_def)
qed

lemma normalize_angle_up_Fin: "normalize_angle_up (Fin x) = Some (Fin (up_val x))"
proof (induction "nat \<lceil>(- 180 - x) / 360\<rceil>" arbitrary: x)
  case 0
  then have "- 180 \<le> x" by (simp add: field_simps)
  then show ?case using 0
    by (subst normalize_angle_up.simps) (simp add: up_val_def)
next
  case (Suc k)
  then have "0 < \<lceil>(- 180 - x) / 360\<rceil>" by linarith
  then have lt: "x < - 180" by (simp add: zero_less_ceiling)
  have "(- 180 - (x + 360)) / 360 = (- 180 - x) / 360 - 1" by (simp add: field_simps)
  then have c: "\<lceil>(- 180 - (x + 360)) / 360\<rceil> = \<lceil>(- 180 - x) / 360\<rceil> - 1"
    by (metis ceiling_diff_one)
  with Suc(2) have k: "k = nat \<lceil>(- 180 - (x + 360)) / 360\<rceil>" by linarith
  have "normalize_angle_up (Fin (x + 360)) = Some (Fin (up_val (x + 360)))"
    using Suc(1)[OF k] .
  moreover have "up_val (x + 360) = up_val x"
  proof -
    have "real (nat \<lceil>(- 180 - x) / 360\<rceil>) = real k + 1" using Suc(2) by (simp flip: of_nat_Suc)
    moreover have "real (nat \<lceil>(- 180 - (x + 360)) / 360\<rceil>) = real k" using k by simp
    ultimately show ?thesis unfolding up_val_def by (simp add: algebra_simps)
  qed
  ultimately show ?case using lt
    by (subst normalize_angle_up.simps) simp
qed

lemma nat_ceiling_pos: "0 < r \<Longrightarrow> real (nat \<lceil>r\<rceil>) = of_int \<lceil>r::real\<rceil>"
  by (simp add: less_imp_le)

lemma nat_ceiling_nonpos: "r \<le> 0 \<Longrightarrow> nat \<lceil>r::real\<rceil> = 0"
  by simp

lemma down_val_id: "x \<le> 180 \<Longrightarrow> down_val x = x"
  unfolding down_val_def by (simp add: field_simps)

lemma ceiling_window:
  fixes r :: real
  obtains c :: real where "c = of_int \<lceil>r\<rceil>" "r \<le> c" "c < r + 1"
  using ceiling_correct[of r] by auto

lemma down_val_gt: "180 < x \<Longrightarrow> - 180 < down_val x \<and> down_val x \<le> 180"
proof -
  assume "180 < x"
  then have d: "down_val x = x - 360 * of_int \<lceil>(x - 180) / 360\<rceil>"
    unfolding down_val_def by (subst nat_ceiling_pos) simp_all
  obtain c :: real where c: "c = of_int \<lceil>(x - 180) / 360\<rceil>" "(x - 180) / 360 \<le> c" "c < (x - 180) / 360 + 1"
    by (rule ceiling_window)
  from d c(1) have "down_val x = x - 360 * c" by simp
  with c(2,3) show ?thesis by (simp add: field_simps)
qed

lemma down_val_le: "down_val x \<le> 180"
  using down_val_id[of x] down_val_gt[of x] by (cases "x \<le> 180") auto

lemma up_val_id: "- 180 \<le> x \<Longrightarrow> up_val x = x"
  unfolding up_val_def by (simp add: field_simps)

lemma up_val_lt: "x < - 180 \<Longrightarrow> - 180 \<le> up_val x \<and> up_val x < 180"
proof -
  assume "x < - 180"
  then have d: "up_val x = x + 360 * of_int \<lceil>(- 180 - x) / 360\<rceil>"
    unfolding up_val_def by (subst nat_ceiling_pos) simp_all
  obtain c :: real where c: "c = of_int \<lceil>(- 180 - x) / 360\<rceil>" "(- 180 - x) / 360 \<le> c" "c < (- 180 - x) / 360 + 1"
    by (rule ceiling_window)
  from d c(1) have "up_val x = x + 360 * c" by simp
  with c(2,3) show ?thesis by (simp add: field_simps)
qed

lemma up_val_ge: "- 180 \<le> up_val x"
  using up_val_id[of x] up_val_lt[of x] by (cases "- 180 \<le> x") auto

lemma down_PosInf_aux: "normalize_angle_down x = Some y \<Longrightarrow> x \<noteq> PosInf"
proof (erule normalize_angle_down.raw_induct[rotated 1, where P="\<lambda>x y. x \<noteq> PosInf"])
  fix f :: "number \<Rightarrow> number option" and angle r
  assume ih: "\<And>x y. f x = Some y \<Longrightarrow> x \<noteq> PosInf"
    and eq: "(if num_gt angle (Fin 180) then f (num_sub angle (Fin 360)) else Some angle) = Some r"
  show "angle \<noteq> PosInf"
  proof
    assume "angle = PosInf"
    with eq have "f PosInf = Some r" by (simp add: num_gt_def)
    with ih show False by blast
  qed
qed

lemma up_NegInf_aux: "normalize_angle_up x = Some y \<Longrightarrow> x \<noteq> NegInf"
proof (erule normalize_angle_up.raw_induct[rotated 1, where P="\<lambda>x y. x \<noteq> NegInf"])
  fix f :: "number \<Rightarrow> number option" and angle r
  assume ih: "\<And>x y. f x = Some y \<Longrightarrow> x \<noteq> NegInf"
    and eq: "(if num_lt angle (Fin (- 180)) then f (num_add angle (Fin 360)) else Some angle) = Some r"
  show "angle \<noteq> NegInf"
  proof
    assume "angle = NegInf"
    with eq have "f NegInf = Some r" by simp
    with ih show False by blast
  qed
qed

lemma normalize_angle_down_PosInf: "normalize_angle_down PosInf = None"
  using down_PosInf_aux[of PosInf] by (cases "normalize_angle_down PosInf") auto

lemma normalize_angle_up_NegInf: "normalize_angle_up NegInf = None"
  using up_NegInf_aux[of NegInf] by (cases "normalize_angle_up NegInf") auto

lemma normalize_angle_down_NegInf: "normalize_angle_down NegInf = Some NegInf"
  by (subst normalize_angle_down.simps) (simp add: num_gt_def)

lemma normalize_angle_down_NaN: "normalize_angle_down NaN = Some NaN"
  by (subst normalize_angle_down.simps) (simp add: num_gt_def)

lemma normalize_angle_up_NaN: "normalize_angle_up NaN = Some NaN"
  by (subst normalize_angle_up.simps) simp

lemma normalize_angle_Fin: "normalize_angle (Fin x) = Some (Fin (norm_val x))"
  by (simp add: normalize_angle_def normalize_angle_down_Fin normalize_angle_up_Fin norm_val_def)

lemma normalize_angle_PosInf: "normalize_angle PosInf = None"
  by (simp add: normalize_angle_def normalize_angle_down_PosInf)

lemma normalize_angle_NegInf: "normalize_angle NegInf = None"
  by (simp add: normalize_angle_def normalize_angle_down_NegInf normalize_angle_up_NegInf)

lemma normalize_angle_NaN: "normalize_angle NaN = Some NaN"
  by (simp add: normalize_angle_def normalize_angle_down_NaN normalize_angle_up_NaN)

lemma spec_centered_mod_range: "- 180 < spec_centered_mod d \<and> spec_centered_mod d \<le> 180"
proof -
  obtain c :: real where c: "c = of_int \<lceil>(d - 180) / 360\<rceil>" "(d - 180) / 360 \<le> c" "c < (d - 180) / 360 + 1"
    by (rule ceiling_window)
  have "spec_centered_mod d = d - 360 * c" by (simp add: spec_centered_mod_def c(1))
  with c(2,3) show ?thesis by (simp add: field_simps)
qed

lemma spec_centered_mod_unique:
  assumes "y = d - 360 * of_int k" "- 180 < y" "y \<le> 180"
  shows "y = spec_centered_mod d"
proof -
  have "\<lceil>(d - 180) / 360\<rceil> = k"
  proof (rule ceiling_unique)
    show "of_int k - 1 < (d - 180) / 360" using assms by (simp add: field_simps)
    show "(d - 180) / 360 \<le> of_int k" using assms by (simp add: field_simps)
  qed
  then show ?thesis by (simp add: spec_centered_mod_def assms(1))
qed

lemma norm_val_cases:
  "norm_val x = (if 180 < x then down_val x else if x < - 180 then up_val x else x)"
  using down_val_gt[of x] by (auto simp: norm_val_def down_val_id up_val_id)

lemma norm_val_range: "- 180 \<le> norm_val x \<and> norm_val x \<le> 180"
  using down_val_gt[of x] up_val_lt[of x] by (auto simp: norm_val_cases)

lemma norm_val_congruent: "\<exists>k::int. norm_val x = x - 360 * of_int k"
proof -
  have "down_val x = x - 360 * of_int (int (nat \<lceil>(x - 180) / 360\<rceil>))"
    by (simp add: down_val_def)
  moreover have "up_val x = x - 360 * of_int (- int (nat \<lceil>(- 180 - x) / 360\<rceil>))"
    by (simp add: up_val_def)
  moreover have "x = x - 360 * of_int 0" by simp
  ultimately show ?thesis unfolding norm_val_cases by (metis (no_types))
qed

lemma norm_val_centered:
  "norm_val x = (if norm_val x = - 180 then - 180 else spec_centered_mod x)"
proof (cases "norm_val x = - 180")
  case True then show ?thesis by simp
next
  case False
  obtain k :: int where "norm_val x = x - 360 * of_int k" using norm_val_congruent by blast
  moreover have "- 180 < norm_val x" "norm_val x \<le> 180" using False norm_val_range[of x] by auto
  ultimately have "norm_val x = spec_centered_mod x" by (rule spec_centered_mod_unique)
  with False show ?thesis by simp
qed

lemma norm_val_boundary: "norm_val x = - 180 \<Longrightarrow> spec_centered_mod x = 180"
proof -
  assume a: "norm_val x = - 180"
  obtain k :: int where k: "norm_val x = x - 360 * of_int k" using norm_val_congruent by blast
  have "(180::real) = x - 360 * of_int (k - 1)" using a k by simp
  then show ?thesis using spec_centered_mod_unique[of 180 x "k - 1"] by simp
qed

lemma abs_norm_val: "\<bar>norm_val x\<bar> = \<bar>spec_centered_mod x\<bar>"
  using norm_val_centered[of x] norm_val_boundary[of x] by (cases "norm_val x = - 180") auto

lemma up_val_minus: "up_val (- x) = - down_val x"
  by (simp add: up_val_def down_val_def)

lemma down_val_minus: "down_val (- x) = - up_val x"
proof -
  have "- x - 180 = - 180 - x" by simp
  then have "nat \<lceil>(- x - 180) / 360\<rceil> = nat \<lceil>(- 180 - x) / 360\<rceil>" by (rule arg_cong)
  then show ?thesis by (simp add: up_val_def down_val_def)
qed

lemma norm_val_minus: "norm_val (- x) = - norm_val x"
  by (auto simp: norm_val_cases up_val_minus down_val_minus)

lemma norm_val_zero: "norm_val 0 = 0"
  by (simp add: norm_val_cases)

section \<open>The merge loop on values\<close>

lemma merge_loop_eq:
  assumes "result < length h" "new < length h" "result \<noteq> new"
  shows "loop_status (merge_loop p q result new i h a s) =
     map_option (\<lambda>(R, st). (h[result := R], st)) (merge_from p q (h ! result) (drop i (h ! new)))"
  using assms
proof (induction "length (h ! new) - i" arbitrary: i h a s)
  case 0
  then have "\<not> i < length (h ! new)" by simp
  then show ?case by (subst merge_loop.simps) (simp add: loop_status_def)
next
  case (Suc n)
  then have lt: "i < length (h ! new)" by simp
  then have dr: "drop i (h ! new) = (h ! new ! i) # drop (i + 1) (h ! new)"
    by (simp add: Cons_nth_drop_Suc)
  let ?c = "h ! new ! i"
  show ?case
  proof (cases "scan_result p q ?c (h ! result)")
    case None
    then show ?thesis using lt dr
      by (subst merge_loop.simps) (simp add: loop_status_def)
  next
    case (Some r)
    show ?thesis
    proof (cases r)
      case (Inl e)
      then show ?thesis using lt dr Some
        by (subst merge_loop.simps) (simp add: loop_status_def)
    next
      case (Inr dup)
      show ?thesis
      proof (cases dup)
        case True
        have n: "n = length (h ! new) - (i + 1)" using Suc(2) by simp
        have "loop_status (merge_loop p q result new (i + 1) h a (s + 1)) =
            map_option (\<lambda>(R, st). (h[result := R], st))
              (merge_from p q (h ! result) (drop (i + 1) (h ! new)))"
          by (rule Suc(1)[OF n Suc(3) Suc(4) Suc(5)])
        then show ?thesis using lt dr Some Inr True
          by (subst merge_loop.simps) simp
      next
        case False
        let ?h = "list_append h result ?c"
        have new': "?h ! new = h ! new" using Suc(5) by (simp add: list_append_def)
        have res': "?h ! result = h ! result @ [?c]" using Suc(3) by (simp add: list_append_def)
        have upd: "\<And>R. ?h[result := R] = h[result := R]" by (simp add: list_append_def)
        have n: "n = length (?h ! new) - (i + 1)" using Suc(2) new' by simp
        have len: "result < length ?h" "new < length ?h" using Suc(3,4) by (simp_all add: list_append_def)
        have "loop_status (merge_loop p q result new (i + 1) ?h (a + 1) s) =
            map_option (\<lambda>(R, st). (?h[result := R], st))
              (merge_from p q (?h ! result) (drop (i + 1) (?h ! new)))"
          by (rule Suc(1)[OF n len Suc(5)])
        then show ?thesis using lt dr Some Inr False new' res' upd
          by (subst merge_loop.simps) simp
      qed
    qed
  qed
qed

lemma merge_lineups_eq:
  assumes "existing < length h" "new < length h"
  shows "merge_lineups p q h existing new =
     map_option (\<lambda>(R, st). (h @ [R], case st of None \<Rightarrow> Inr (length h) | Some e \<Rightarrow> Inl e))
       (merge_from p q (h ! existing) (h ! new))"
proof -
  let ?h1 = "h @ [h ! existing]"
  let ?r = "merge_loop p q (length h) new 0 ?h1 0 0"
  have "loop_status ?r =
      map_option (\<lambda>(R, st). (?h1[length h := R], st))
        (merge_from p q (?h1 ! length h) (drop 0 (?h1 ! new)))"
    using assms by (intro merge_loop_eq) simp_all
  then have st: "loop_status ?r =
      map_option (\<lambda>(R, st). (h @ [R], st)) (merge_from p q (h ! existing) (h ! new))"
    using assms by (simp add: nth_append)
  show ?thesis
  proof (cases "merge_from p q (h ! existing) (h ! new)")
    case None
    with st have "?r = None" by (simp add: loop_status_def)
    with None show ?thesis by (simp add: merge_lineups_def list_copy_def)
  next
    case (Some a)
    obtain R e where a: "a = (R, e)" by (cases a)
    from st Some a obtain x where r: "?r = Some (h @ [R], x)"
      and x: "(case x of Inl e \<Rightarrow> Some e | Inr c \<Rightarrow> None) = e"
      by (auto simp: loop_status_def)
    show ?thesis using Some a r x
      by (cases x) (auto simp: merge_lineups_def list_copy_def)
  qed
qed

lemma merge_eq:
  "merge p q E C =
     (case merge_from p q E C of
        None \<Rightarrow> None
      | Some (R, None) \<Rightarrow> returns R
      | Some (R, Some e) \<Rightarrow> raises e)"
  using merge_lineups_eq[of 0 "[E, C]" 1 p q]
  by (auto simp: merge_def split: option.splits)

lemma merge_Nil: "merge p q E [] = returns E"
  by (simp add: merge_eq)

lemma merge_Cons:
  "merge p q E (c # cs) =
     bind_outcome (scan_result p q c E) (\<lambda>dup. merge p q (if dup then E else E @ [c]) cs)"
  by (simp add: merge_eq bind_outcome_def raises_def split: option.splits sum.splits)

lemma scan_append_True:
  "scan_result p q c xs = returns True \<Longrightarrow> scan_result p q c (xs @ ys) = returns True"
  by (induction xs) (auto simp: returns_def split: option.splits sum.splits bool.splits)

lemma scan_append_False:
  "scan_result p q c xs = returns False \<Longrightarrow> scan_result p q c (xs @ ys) = scan_result p q c ys"
  by (induction xs) (auto simp: returns_def split: option.splits sum.splits bool.splits)

lemma scan_no_match:
  "(\<forall>x\<in>set xs. is_similar_lineup p q c x = returns False) \<longleftrightarrow> scan_result p q c xs = returns False"
  by (induction xs) (auto simp: returns_def split: option.splits sum.splits bool.splits)

lemma scan_Cons_True:
  "is_similar_lineup p q c e = returns True \<Longrightarrow> scan_result p q c (e # ys) = returns True"
  by (simp add: returns_def)

lemma scan_first_match:
  assumes "\<forall>x\<in>set xs. is_similar_lineup p q c x = returns False"
      and "is_similar_lineup p q c e = returns True"
  shows "scan_result p q c (xs @ e # ys) = returns True"
proof -
  have "scan_result p q c xs = returns False" using assms(1) by (simp add: scan_no_match)
  then have "scan_result p q c (xs @ e # ys) = scan_result p q c (e # ys)"
    by (rule scan_append_False)
  with scan_Cons_True[OF assms(2)] show ?thesis by simp
qed

section \<open>Well-formed lineups\<close>

lemma axis_diff_angles2:
  "axis_diff (angles2 (p1, y1)) (angles2 (p2, y2)) 0 = returns (Fin (spec_axis_difference p1 p2))"
  "axis_diff (angles2 (p1, y1)) (angles2 (p2, y2)) (Suc 0) = returns (Fin (spec_axis_difference y1 y2))"
  by (simp_all add: axis_diff_def angles2_def py_sub_def normalize_angle_Fin abs_norm_val
      spec_axis_difference_def)

lemma math_sqrt_sum2: "math_sqrt (Fin (a\<^sup>2 + b\<^sup>2)) = Inr (Fin (sqrt (a\<^sup>2 + b\<^sup>2)))"
  by (simp add: not_less)

lemma math_sqrt_sum3:
  "math_sqrt (Fin (a\<^sup>2 + b\<^sup>2 + c\<^sup>2)) = Inr (Fin (sqrt (a\<^sup>2 + b\<^sup>2 + c\<^sup>2)))"
  by (simp add: not_less add_nonneg_nonneg)

lemma calculate_angle_difference_angles2:
  "calculate_angle_difference (angles2 v1) (angles2 v2) = returns (Fin (spec_angular_distance v1 v2))"
proof -
  obtain p1 y1 where v1: "v1 = (p1, y1)" by (cases v1)
  obtain p2 y2 where v2: "v2 = (p2, y2)" by (cases v2)
  show ?thesis unfolding v1 v2
    by (simp add: calculate_angle_difference_def axis_diff_angles2 bind_outcome_def returns_def
        num_gt_def spec_angular_distance_def spec_yaw_fold_def math_sqrt_sum2
        del: math_sqrt.simps)
qed

lemma calculate_distance_position3:
  "calculate_distance (position3 a) (position3 b) = Inr (Fin (spec_position_distance a b))"
proof -
  obtain ax ay az where a: "a = (ax, ay, az)" by (cases a)
  obtain bx "by" bz where b: "b = (bx, by, bz)" by (cases b)
  show ?thesis unfolding a b
    by (simp add: calculate_distance_def position3_def py_sub_def spec_position_distance_def
        math_sqrt_sum3 del: math_sqrt.simps)
qed

lemma is_similar_well_formed:
  assumes "well_formed a pa va" "well_formed b pb vb"
  shows "is_similar_lineup (Fin mp) (Fin ma) a b =
     returns (spec_position_distance pa pb \<le> mp \<and> spec_angular_distance va vb \<le> ma)"
  using assms
  by (simp add: well_formed_def is_similar_lineup_def dict_contains_def dict_getitem_def
      bind_outcome_def calculate_distance_position3 calculate_angle_difference_angles2 returns_def)

lemma spec_centered_mod_zero: "spec_centered_mod 0 = 0"
  using spec_centered_mod_unique[of 0 0 0] by simp

lemma spec_distance_self:
  "spec_position_distance a a = 0" "spec_angular_distance v v = 0"
  by (cases a; cases v; simp add: spec_position_distance_def spec_angular_distance_def
      spec_axis_difference_def spec_centered_mod_zero spec_yaw_fold_def)+

lemma well_formed_self_similar:
  assumes "well_formed a pa va" "0 \<le> mp" "0 \<le> ma"
  shows "is_similar_lineup (Fin mp) (Fin ma) a a = returns True"
  using assms by (simp add: is_similar_well_formed[OF assms(1) assms(1)] spec_distance_self)

lemma well_formed_scenario:
  "well_formed scenario_first (0, 0, 0) (0, 0)" "well_formed scenario_second (1, 0, 0) (0, 0)"
  by (simp_all add: well_formed_def scenario_first_def scenario_second_def)

lemma spec_distance_scenario:
  "spec_position_distance (1, 0, 0) (0, 0, 0) = 1"
  "spec_position_distance (0, 0, 0) (1, 0, 0) = 1"
  by (simp_all add: spec_position_distance_def)

section \<open>Missing fields\<close>

text \<open>
  C3. If either lineup has no \<^verbatim>\<open>position\<close> key, or either has no \<^verbatim>\<open>viewangles\<close> key,
  \<^verbatim>\<open>is_similar_lineup\<close> returns false, whatever the thresholds and whatever else the two
  lineups hold; in particular a lineup that lacks a field is not similar to itself.
\<close>

theorem missing_field_not_similar:
  "(\<not> dict_contains ''position'' a \<or> \<not> dict_contains ''position'' b
      \<or> \<not> dict_contains ''viewangles'' a \<or> \<not> dict_contains ''viewangles'' b
    \<longrightarrow> is_similar_lineup max_pos max_angle a b = returns False)
   \<and> (\<not> dict_contains ''position'' a \<or> \<not> dict_contains ''viewangles'' a
    \<longrightarrow> is_similar_lineup max_pos max_angle a a = returns False)"
  by (auto simp: is_similar_lineup_def)

theorem missing_field_not_similar_witness:
  "\<not> dict_contains ''position'' bare_lineup
   \<and> is_similar_lineup (Fin 10) (Fin 5) bare_lineup scenario_first = returns False
   \<and> is_similar_lineup (Fin 10) (Fin 5) bare_lineup bare_lineup = returns False"
  using missing_field_not_similar[of bare_lineup scenario_first "Fin 10" "Fin 5"]
  by (simp add: dict_contains_def bare_lineup_def)

section \<open>The scan of the accumulated result\<close>

lemma similar_scenario:
  "is_similar_lineup (Fin 10) (Fin 5) scenario_second scenario_first = returns True"
  "is_similar_lineup (Fin (1 / 2)) (Fin 5) scenario_second scenario_first = returns False"
  "is_similar_lineup (Fin (1 / 2)) (Fin 5) scenario_second scenario_second = returns True"
  by (simp_all add: is_similar_well_formed[OF well_formed_scenario(2) well_formed_scenario(1)]
      is_similar_well_formed[OF well_formed_scenario(2) well_formed_scenario(2)]
      spec_distance_scenario spec_distance_self)

lemma bind_outcome_simps:
  "bind_outcome (returns v) f = f v"
  "bind_outcome (raises e) f = raises e"
  "bind_outcome None f = None"
  by (simp_all add: bind_outcome_def returns_def raises_def)

lemma scan_Cons_False:
  "is_similar_lineup p q c e = returns False \<Longrightarrow>
     scan_result p q c (e # ys) = scan_result p q c ys"
  by (simp add: returns_def)

lemma merge_scenario:
  "merge (Fin 10) (Fin 5) [] [scenario_first, scenario_second] = returns [scenario_first]"
  "merge (Fin (1 / 2)) (Fin 5) [] [scenario_first, scenario_second] =
     returns [scenario_first, scenario_second]"
  by (simp_all add: merge_Cons merge_Nil bind_outcome_simps scan_Cons_True scan_Cons_False
      similar_scenario del: scan_result.simps(2))

text \<open>
  C2. \<^verbatim>\<open>merge_lineups\<close> takes the candidates in order and checks each against the result
  built so far, which holds the existing lineups and the candidates accepted earlier in
  the same call; the candidate is appended when the scan finds no similar lineup. The
  scan stops at the first similar lineup: what comes after it in the result is not
  looked at. With no existing lineups, the candidates at positions (0, 0, 0) and
  (1, 0, 0) with equal orientation, \<open>max_pos = 10\<close> and \<open>max_angle = 5\<close> the result has
  length 1; with \<open>max_pos = 0.5\<close> it has length 2.
\<close>

theorem merge_scans_accumulated_result:
  "merge p q E (c # cs) =
     bind_outcome (scan_result p q c E) (\<lambda>dup. merge p q (if dup then E else E @ [c]) cs)
   \<and> ((\<forall>x\<in>set xs. is_similar_lineup p q c x = returns False)
        \<and> is_similar_lineup p q c e = returns True
      \<longrightarrow> scan_result p q c (xs @ e # ys) = returns True)
   \<and> ((\<forall>x\<in>set xs. is_similar_lineup p q c x = returns False)
      \<longrightarrow> scan_result p q c xs = returns False)
   \<and> merge (Fin 10) (Fin 5) [] [scenario_first, scenario_second] = returns [scenario_first]
   \<and> length [scenario_first] = 1
   \<and> merge (Fin (1 / 2)) (Fin 5) [] [scenario_first, scenario_second] =
        returns [scenario_first, scenario_second]
   \<and> length [scenario_first, scenario_second] = 2"
proof -
  have "merge p q E (c # cs) =
     bind_outcome (scan_result p q c E) (\<lambda>dup. merge p q (if dup then E else E @ [c]) cs)"
    by (rule merge_Cons)
  moreover have "(\<forall>x\<in>set xs. is_similar_lineup p q c x = returns False)
        \<and> is_similar_lineup p q c e = returns True
      \<longrightarrow> scan_result p q c (xs @ e # ys) = returns True"
    using scan_first_match by blast
  moreover have "(\<forall>x\<in>set xs. is_similar_lineup p q c x = returns False)
      \<longrightarrow> scan_result p q c xs = returns False"
    by (simp add: scan_no_match)
  ultimately show ?thesis by (simp add: merge_scenario)
qed

theorem merge_scans_accumulated_result_witness:
  "is_similar_lineup (Fin (1 / 2)) (Fin 5) scenario_second scenario_first = returns False
   \<and> is_similar_lineup (Fin (1 / 2)) (Fin 5) scenario_second scenario_second = returns True
   \<and> scan_result (Fin (1 / 2)) (Fin 5) scenario_second
        ([scenario_first] @ scenario_second # [bare_lineup]) = returns True
   \<and> scan_result (Fin (1 / 2)) (Fin 5) scenario_second [scenario_first] = returns False"
  using merge_scans_accumulated_result[of "Fin (1 / 2)" "Fin 5" "[]" scenario_second "[]"
      "[scenario_first]" scenario_second "[bare_lineup]"]
  by (simp add: similar_scenario scan_Cons_False del: scan_result.simps(2))

section \<open>Replaying a batch\<close>

lemma merge_from_extends:
  "merge_from p q R cs = Some (R', st) \<Longrightarrow> \<exists>acc. R' = R @ acc"
proof (induction cs arbitrary: R)
  case Nil
  then show ?case by simp
next
  case (Cons c cs)
  show ?case
  proof (cases "scan_result p q c R")
    case None
    with Cons.prems show ?thesis by simp
  next
    case (Some r)
    show ?thesis
    proof (cases r)
      case (Inl e)
      with Cons.prems Some show ?thesis by simp
    next
      case (Inr dup)
      with Cons.prems Some
      have "merge_from p q (if dup then R else R @ [c]) cs = Some (R', st)" by simp
      then obtain acc where "R' = (if dup then R else R @ [c]) @ acc"
        using Cons.IH by blast
      then show ?thesis by (cases dup) auto
    qed
  qed
qed

lemma merge_returns_iff: "merge p q E C = returns R \<longleftrightarrow> merge_from p q E C = Some (R, None)"
  by (auto simp: merge_eq returns_def raises_def split: option.splits)

lemma merge_extends: "merge p q E C = returns R \<Longrightarrow> \<exists>acc. R = E @ acc"
  using merge_from_extends by (auto simp: merge_returns_iff)

lemma merge_Cons_returns:
  assumes "merge p q E (c # cs) = returns R"
  obtains dup where "scan_result p q c E = returns dup"
    and "merge p q (if dup then E else E @ [c]) cs = returns R"
  using assms
  by (auto simp: merge_Cons bind_outcome_def returns_def split: option.splits sum.splits)

lemma scan_self_after_accept:
  assumes "scan_result p q c E = returns False" "is_similar_lineup p q c c = returns True"
  shows "scan_result p q c (E @ [c]) = returns True"
  using scan_append_False[OF assms(1), of "[c]"] scan_Cons_True[OF assms(2), of "[]"] by simp

lemma merge_candidates_duplicate:
  assumes "merge p q E C = returns R"
      and "\<forall>c\<in>set C. is_similar_lineup p q c c = returns True"
  shows "\<forall>c\<in>set C. scan_result p q c R = returns True"
  using assms
proof (induction C arbitrary: E)
  case Nil
  then show ?case by simp
next
  case (Cons c cs)
  from Cons.prems(1) obtain dup where scan: "scan_result p q c E = returns dup"
    and rest: "merge p q (if dup then E else E @ [c]) cs = returns R"
    by (rule merge_Cons_returns)
  let ?E = "if dup then E else E @ [c]"
  have self: "is_similar_lineup p q c c = returns True" using Cons.prems(2) by simp
  have "scan_result p q c ?E = returns True"
    using scan scan_self_after_accept[OF _ self] by (cases dup) auto
  moreover obtain acc where "R = ?E @ acc" using merge_extends[OF rest] by blast
  ultimately have "scan_result p q c R = returns True" by (simp add: scan_append_True)
  moreover have "\<forall>c\<in>set cs. scan_result p q c R = returns True"
    using Cons.IH[OF rest] Cons.prems(2) by simp
  ultimately show ?case by simp
qed

lemma merge_all_duplicates:
  "\<forall>c\<in>set C. scan_result p q c R = returns True \<Longrightarrow> merge p q R C = returns R"
  by (induction C) (simp_all add: merge_Nil merge_Cons bind_outcome_simps)

lemma bare_lineup_not_similar: "is_similar_lineup p q bare_lineup x = returns False"
  by (simp add: is_similar_lineup_def dict_contains_def bare_lineup_def)

text \<open>
  A lineup without a position is not similar to itself, so merging it a second time
  appends it a second time.
\<close>

theorem merge_replay_counterexample:
  "merge (Fin 10) (Fin 5) [] [bare_lineup] = returns [bare_lineup]
   \<and> merge (Fin 10) (Fin 5) [bare_lineup] [bare_lineup] = returns [bare_lineup, bare_lineup]
   \<and> [bare_lineup, bare_lineup] \<noteq> [bare_lineup]"
  by (simp add: merge_Cons merge_Nil bind_outcome_simps bare_lineup_not_similar scan_Cons_False
      del: scan_result.simps(2))

text \<open>
  C5 (amended). Merging an empty batch returns the existing lineups unchanged. When a
  merge of the batch \<open>C\<close> returns \<open>R\<close> and every lineup of \<open>C\<close> is similar to itself under the
  two thresholds, merging \<open>C\<close> into \<open>R\<close> once more returns \<open>R\<close>. By
  \<open>well_formed_self_similar\<close> a lineup with three finite position numbers and two finite
  orientation numbers is similar to itself under thresholds that are not negative.
\<close>

theorem merge_replay_idempotent:
  "merge p q E [] = returns E
   \<and> (merge p q E C = returns R \<and> (\<forall>c\<in>set C. is_similar_lineup p q c c = returns True)
      \<longrightarrow> merge p q R C = returns R)"
  using merge_Nil merge_all_duplicates merge_candidates_duplicate by blast

theorem merge_replay_idempotent_witness:
  "merge (Fin 10) (Fin 5) [] [scenario_first, scenario_second] = returns [scenario_first]
   \<and> is_similar_lineup (Fin 10) (Fin 5) scenario_first scenario_first = returns True
   \<and> is_similar_lineup (Fin 10) (Fin 5) scenario_second scenario_second = returns True
   \<and> merge (Fin 10) (Fin 5) [scenario_first] [scenario_first, scenario_second] =
        returns [scenario_first]"
  using merge_replay_idempotent[of "Fin 10" "Fin 5" "[]" "[scenario_first, scenario_second]"
      "[scenario_first]"]
  by (simp add: merge_scenario well_formed_self_similar[OF well_formed_scenario(1)]
      well_formed_self_similar[OF well_formed_scenario(2)])

section \<open>Normalisation against the centred reduction\<close>

lemma norm_val_small: "- 180 \<le> x \<Longrightarrow> x \<le> 180 \<Longrightarrow> norm_val x = x"
  by (simp add: norm_val_cases)





lemma spec_yaw_fold_id: "spec_yaw_fold \<bar>spec_centered_mod d\<bar> = \<bar>spec_centered_mod d\<bar>"
  using spec_centered_mod_range[of d] by (auto simp: spec_yaw_fold_def)





section \<open>Thresholds\<close>

lemma is_similar_metrics:
  "is_similar_lineup x y a b =
     (if missing_field a b then returns False
      else bind_outcome (lineup_metrics a b)
             (\<lambda>(pos_distance, angle_diff). returns (num_le pos_distance x \<and> num_le angle_diff y)))"
  by (simp add: is_similar_lineup_def lineup_metrics_def missing_field_def bind_outcome_def
      returns_def split: option.splits sum.splits)

lemma num_le_trans: "num_le a b \<Longrightarrow> num_le b c \<Longrightarrow> num_le a c"
  by (cases a; cases b; cases c; simp)

text \<open>
  C7. If \<^verbatim>\<open>is_similar_lineup\<close> returns true under the thresholds \<open>x\<close> and \<open>y\<close>, it returns
  true under all thresholds \<open>x' \<ge> x\<close> and \<open>y' \<ge> y\<close>, the comparisons being Python's.
\<close>

theorem threshold_monotone:
  assumes "is_similar_lineup x y a b = returns True"
      and "num_le x x'" and "num_le y y'"
  shows "is_similar_lineup x' y' a b = returns True"
proof (cases "missing_field a b")
  case True
  with assms(1) show ?thesis by (simp add: is_similar_metrics returns_def)
next
  case False
  with assms(1) obtain pd ad where m: "lineup_metrics a b = returns (pd, ad)"
    and le: "num_le pd x" "num_le ad y"
    by (auto simp: is_similar_metrics bind_outcome_def returns_def
        split: option.splits sum.splits)
  have "num_le pd x'" "num_le ad y'"
    using le assms(2,3) by (blast intro: num_le_trans)+
  with False m show ?thesis by (simp add: is_similar_metrics bind_outcome_simps)
qed

theorem threshold_monotone_witness:
  "is_similar_lineup (Fin 10) (Fin 5) scenario_second scenario_first = returns True
   \<and> num_le (Fin 10) (Fin 20) \<and> num_le (Fin 5) PosInf
   \<and> is_similar_lineup (Fin 20) PosInf scenario_second scenario_first = returns True"
  using threshold_monotone[of "Fin 10" "Fin 5" scenario_second scenario_first "Fin 20" PosInf]
  by (simp add: similar_scenario)

section \<open>Symmetry\<close>

lemma same_outcome_refl: "same_outcome r r"
  by (simp add: same_outcome_def split: option.splits sum.splits)

lemma same_outcome_bind:
  assumes "same_outcome m1 m2" and "\<And>v. same_outcome (f v) (g v)"
  shows "same_outcome (bind_outcome m1 f) (bind_outcome m2 g)"
proof (cases m1)
  case None
  with assms(1) show ?thesis by (simp add: same_outcome_def bind_outcome_def)
next
  case (Some r)
  show ?thesis
  proof (cases r)
    case (Inl e)
    with Some assms(1) show ?thesis
      by (auto simp: same_outcome_def bind_outcome_def split: option.splits sum.splits)
  next
    case (Inr v)
    with Some assms(1) have "m2 = Some (Inr v)" by (simp add: same_outcome_def)
    with Some Inr assms(2)[of v] show ?thesis by (simp add: bind_outcome_def)
  qed
qed

lemma same_outcome_returns:
  "same_outcome r1 r2 \<Longrightarrow> (r1 = returns v) = (r2 = returns v)"
  by (auto simp: same_outcome_def returns_def split: option.splits sum.splits)

lemma same_outcome_no_raise:
  "same_outcome r1 r2 \<Longrightarrow> \<forall>e. r1 \<noteq> raises e \<Longrightarrow> r1 = r2"
  by (auto simp: same_outcome_def raises_def split: option.splits sum.splits)

lemma num_pow2_sub_sym: "num_pow2 (num_sub x y) = num_pow2 (num_sub y x)"
  by (cases x; cases y; simp add: power2_commute)

lemma py_sub_sym: "map_sum id num_pow2 (py_sub a b) = map_sum id num_pow2 (py_sub b a)"
  by (simp add: py_sub_def num_pow2_sub_sym split: option.splits)

lemma sum_squares_Cons:
  "sum_squares acc ((a, b) # rest) =
     (case map_sum id num_pow2 (py_sub a b) of
        Inl e \<Rightarrow> Inl e
      | Inr s \<Rightarrow> sum_squares (num_add acc s) rest)"
  by (simp split: sum.splits)

lemma sum_squares_sym: "sum_squares acc (zip xs ys) = sum_squares acc (zip ys xs)"
proof (induction xs arbitrary: ys acc)
  case Nil
  then show ?case by simp
next
  case (Cons x xs)
  show ?case
  proof (cases ys)
    case Nil
    then show ?thesis by simp
  next
    case (Cons y ys')
    then show ?thesis
      using Cons.IH py_sub_sym[of x y]
      by (simp add: sum_squares_Cons del: sum_squares.simps(2) split: sum.splits)
  qed
qed

lemma py_iter_error: "py_iter v = Inl e \<Longrightarrow> e = TypeError"
  by (cases v) simp_all

lemma calculate_distance_sym: "calculate_distance p1 p2 = calculate_distance p2 p1"
  using py_iter_error[of p1] py_iter_error[of p2]
  by (auto simp: calculate_distance_def sum_squares_sym split: sum.splits)

lemma normalize_abs_sym:
  "map_option num_abs (normalize_angle (num_sub x y)) =
   map_option num_abs (normalize_angle (num_sub y x))"
proof -
  have "\<And>a b :: real. \<bar>norm_val (a - b)\<bar> = \<bar>norm_val (b - a)\<bar>"
    using norm_val_minus by (metis abs_minus_cancel minus_diff_eq)
  then show ?thesis
    by (cases x; cases y;
        simp add: normalize_angle_Fin normalize_angle_PosInf normalize_angle_NegInf
          normalize_angle_NaN)
qed

lemma axis_diff_sym: "same_outcome (axis_diff a1 a2 i) (axis_diff a2 a1 i)"
proof (cases "py_getitem a1 i")
  case (Inl e1)
  then show ?thesis
    by (simp add: axis_diff_def same_outcome_def raises_def split: sum.splits)
next
  case x: (Inr x)
  show ?thesis
  proof (cases "py_getitem a2 i")
    case (Inl e2)
    with x show ?thesis
      by (simp add: axis_diff_def same_outcome_def raises_def)
  next
    case y: (Inr y)
    show ?thesis
    proof (cases "as_number x")
      case None
      with x y show ?thesis
        by (simp add: axis_diff_def py_sub_def same_outcome_def raises_def split: option.splits)
    next
      case xn: (Some xn)
      show ?thesis
      proof (cases "as_number y")
        case None
        with x y xn show ?thesis
          by (simp add: axis_diff_def py_sub_def same_outcome_def raises_def)
      next
        case yn: (Some yn)
        have "axis_diff a1 a2 i = map_option (\<lambda>n. Inr (num_abs n)) (normalize_angle (num_sub xn yn))"
          using x y xn yn by (simp add: axis_diff_def py_sub_def returns_def split: option.splits)
        moreover have "axis_diff a2 a1 i = map_option (\<lambda>n. Inr (num_abs n)) (normalize_angle (num_sub yn xn))"
          using x y xn yn by (simp add: axis_diff_def py_sub_def returns_def split: option.splits)
        moreover have "map_option (\<lambda>n. Inr (num_abs n) :: error + number) (normalize_angle (num_sub xn yn)) =
            map_option (\<lambda>n. Inr (num_abs n)) (normalize_angle (num_sub yn xn))"
        proof -
          have "\<And>m. map_option (\<lambda>n. Inr (num_abs n) :: error + number) m =
              map_option Inr (map_option num_abs m)"
            by (simp add: option.map_comp comp_def)
          then show ?thesis using normalize_abs_sym[of xn yn] by simp
        qed
        ultimately show ?thesis by (simp add: same_outcome_refl)
      qed
    qed
  qed
qed

lemma calculate_angle_difference_sym:
  "same_outcome (calculate_angle_difference a1 a2) (calculate_angle_difference a2 a1)"
  unfolding calculate_angle_difference_def
  by (intro same_outcome_bind axis_diff_sym same_outcome_refl)

lemma missing_field_sym: "missing_field a b = missing_field b a"
  by (auto simp: missing_field_def)

lemma lineup_metrics_sym:
  assumes "\<not> missing_field a b"
  shows "same_outcome
     (bind_outcome (lineup_metrics a b) (\<lambda>(pd, ad). returns (num_le pd x \<and> num_le ad y)))
     (bind_outcome (lineup_metrics b a) (\<lambda>(pd, ad). returns (num_le pd x \<and> num_le ad y)))"
proof -
  from assms obtain pa pb va vb where f:
    "map_of a ''position'' = Some pa" "map_of b ''position'' = Some pb"
    "map_of a ''viewangles'' = Some va" "map_of b ''viewangles'' = Some vb"
    by (auto simp: missing_field_def dict_contains_def)
  show ?thesis
  proof (cases "calculate_distance pa pb")
    case (Inl e)
    then show ?thesis using f calculate_distance_sym[of pb pa]
      by (simp add: lineup_metrics_def dict_getitem_def bind_outcome_def same_outcome_def)
  next
    case (Inr d)
    have "same_outcome
        (bind_outcome (calculate_angle_difference va vb) (\<lambda>ad. returns (num_le d x \<and> num_le ad y)))
        (bind_outcome (calculate_angle_difference vb va) (\<lambda>ad. returns (num_le d x \<and> num_le ad y)))"
      by (intro same_outcome_bind calculate_angle_difference_sym same_outcome_refl)
    then show ?thesis using f Inr calculate_distance_sym[of pb pa]
      by (simp add: lineup_metrics_def dict_getitem_def bind_outcome_def returns_def
          split: option.splits sum.splits)
  qed
qed

lemma is_similar_sym: "same_outcome (is_similar_lineup p q a b) (is_similar_lineup p q b a)"
  using lineup_metrics_sym[of a b p q] missing_field_sym[of a b]
  by (simp add: is_similar_metrics same_outcome_refl)

lemma exception_class_depends_on_order:
  "is_similar_lineup p q
     [(''position'', position3 pos), (''viewangles'', VList [])]
     [(''position'', position3 pos), (''viewangles'', VDict [])] = raises IndexError"
  "is_similar_lineup p q
     [(''position'', position3 pos), (''viewangles'', VDict [])]
     [(''position'', position3 pos), (''viewangles'', VList [])] = raises KeyError"
  by (simp_all add: is_similar_lineup_def dict_contains_def dict_getitem_def bind_outcome_def
      calculate_distance_position3 calculate_angle_difference_def axis_diff_def raises_def)

lemma axis_diff_boundary:
  "axis_diff (angles2 (pitch, 180)) (angles2 (pitch, 0)) 1 = returns (Fin 180)"
  "axis_diff (angles2 (pitch, 0)) (angles2 (pitch, 180)) 1 = returns (Fin 180)"
  by (simp_all add: axis_diff_def angles2_def py_sub_def normalize_angle_Fin norm_val_small)

text \<open>
  C8. Swapping the two lineups does not change what \<^verbatim>\<open>is_similar_lineup\<close> does: it returns
  the same boolean, or raises in both orders, or returns in neither. This holds for all
  lineups and thresholds, and at the boundary: a raw yaw difference of 180 and one of
  -180 both give the angular difference 180. (When both orders raise, the exception may
  be of a different class, see \<open>exception_class_depends_on_order\<close>.)
\<close>

theorem similarity_symmetric:
  "(is_similar_lineup p q t1 t2 = returns v) = (is_similar_lineup p q t2 t1 = returns v)
   \<and> (\<exists>e. is_similar_lineup p q t1 t2 = raises e) = (\<exists>e. is_similar_lineup p q t2 t1 = raises e)
   \<and> (is_similar_lineup p q t1 t2 = None) = (is_similar_lineup p q t2 t1 = None)
   \<and> ((\<forall>e. is_similar_lineup p q t1 t2 \<noteq> raises e)
      \<longrightarrow> is_similar_lineup p q t1 t2 = is_similar_lineup p q t2 t1)
   \<and> axis_diff (angles2 (pitch, 180)) (angles2 (pitch, 0)) 1 = returns (Fin 180)
   \<and> axis_diff (angles2 (pitch, 0)) (angles2 (pitch, 180)) 1 = returns (Fin 180)"
proof -
  have s: "same_outcome (is_similar_lineup p q t1 t2) (is_similar_lineup p q t2 t1)"
    by (rule is_similar_sym)
  have "(is_similar_lineup p q t1 t2 = returns v) = (is_similar_lineup p q t2 t1 = returns v)"
    using s by (rule same_outcome_returns)
  moreover have "(\<exists>e. is_similar_lineup p q t1 t2 = raises e) =
      (\<exists>e. is_similar_lineup p q t2 t1 = raises e)"
    using s by (auto simp: same_outcome_def raises_def split: option.splits sum.splits)
  moreover have "(is_similar_lineup p q t1 t2 = None) = (is_similar_lineup p q t2 t1 = None)"
    using s by (auto simp: same_outcome_def split: option.splits sum.splits)
  moreover have "(\<forall>e. is_similar_lineup p q t1 t2 \<noteq> raises e)
      \<longrightarrow> is_similar_lineup p q t1 t2 = is_similar_lineup p q t2 t1"
    using s same_outcome_no_raise by blast
  ultimately show ?thesis using axis_diff_boundary[of pitch] by simp
qed

theorem similarity_symmetric_witness:
  "is_similar_lineup (Fin 10) (Fin 5) scenario_second scenario_first = returns True
   \<and> is_similar_lineup (Fin 10) (Fin 5) scenario_first scenario_second = returns True"
  using similarity_symmetric[of "Fin 10" "Fin 5" scenario_second scenario_first True]
  by (simp add: similar_scenario)

section \<open>Malformed positions and orientations\<close>

lemma nonneg_number_pow2: "nonneg_number (num_pow2 d)"
  by (cases d) simp_all

lemma nonneg_number_add: "nonneg_number a \<Longrightarrow> nonneg_number b \<Longrightarrow> nonneg_number (num_add a b)"
  by (cases a; cases b; simp)

lemma math_sqrt_nonneg: "nonneg_number s \<Longrightarrow> \<exists>r. math_sqrt s = Inr r"
  by (cases s) (simp_all add: not_less)

lemma py_sub_numeric:
  "numeric a \<Longrightarrow> numeric b \<Longrightarrow> \<exists>d. py_sub a b = Inr d"
  "\<not> numeric a \<or> \<not> numeric b \<Longrightarrow> py_sub a b = Inl TypeError"
  by (auto simp: numeric_def py_sub_def split: option.splits)


lemma sum_squares_no_fault:
  "\<not> list_ex (\<lambda>(x, y). \<not> numeric x \<or> \<not> numeric y) zs \<Longrightarrow> nonneg_number acc \<Longrightarrow>
     \<exists>s. sum_squares acc zs = Inr s \<and> nonneg_number s"
proof (induction zs arbitrary: acc)
  case Nil
  then show ?case by simp
next
  case (Cons z zs)
  obtain a b where z: "z = (a, b)" by (cases z)
  from Cons.prems(1) z have n: "numeric a" "numeric b"
    and rest: "\<not> list_ex (\<lambda>(x, y). \<not> numeric x \<or> \<not> numeric y) zs"
    by simp_all
  obtain d where d: "py_sub a b = Inr d" using py_sub_numeric(1)[OF n] by blast
  have "nonneg_number (num_add acc (num_pow2 d))"
    using Cons.prems(2) by (simp add: nonneg_number_add nonneg_number_pow2)
  from Cons.IH[OF rest this] show ?case using z d by simp
qed


lemma no_position_fault_returns:
  assumes "\<not> position_fault pos1 pos2"
  shows "\<exists>d. calculate_distance pos1 pos2 = Inr d"
proof -
  from assms obtain xs ys where it: "py_iter pos1 = Inr xs" "py_iter pos2 = Inr ys"
    and nf: "\<not> list_ex (\<lambda>(x, y). \<not> numeric x \<or> \<not> numeric y) (zip xs ys)"
    by (auto simp: position_fault_def split: sum.splits)
  obtain s where s: "sum_squares (Fin 0) (zip xs ys) = Inr s" "nonneg_number s"
    using sum_squares_no_fault[OF nf, of "Fin 0"] by auto
  obtain r where "math_sqrt s = Inr r" using math_sqrt_nonneg[OF s(2)] by blast
  with it s(1) show ?thesis by (simp add: calculate_distance_def)
qed


lemma axis_diff_no_fault:
  "\<not> item_fault a1 i \<Longrightarrow> \<not> item_fault a2 i \<Longrightarrow> axis_diff a1 a2 i \<noteq> raises e"
  by (auto simp: item_fault_def axis_diff_def raises_def returns_def py_sub_def numeric_def
      split: sum.splits option.splits)


lemma no_viewangles_fault_no_raise:
  assumes "\<not> viewangles_fault a1 a2"
  shows "calculate_angle_difference a1 a2 \<noteq> raises e"
proof -
  from assms have nf: "\<not> item_fault a1 0" "\<not> item_fault a2 0" "\<not> item_fault a1 1" "\<not> item_fault a2 1"
    by (simp_all add: viewangles_fault_def)
  have sq: "\<And>a b. \<exists>r. math_sqrt (num_add (num_pow2 a) (num_pow2 b)) = Inr r"
    by (intro math_sqrt_nonneg nonneg_number_add nonneg_number_pow2)
  show ?thesis
  proof
    assume r: "calculate_angle_difference a1 a2 = raises e"
    from axis_diff_no_fault[OF nf(1,2)] axis_diff_no_fault[OF nf(3,4)] r
    obtain p y where "axis_diff a1 a2 0 = Some (Inr p)" "axis_diff a1 a2 1 = Some (Inr y)"
      by (auto simp: calculate_angle_difference_def bind_outcome_def raises_def
          split: option.splits sum.splits)
    with r sq[of p y] sq[of p "num_sub (Fin 360) y"] show False
      by (auto simp: calculate_angle_difference_def bind_outcome_def raises_def Let_def
          split: if_splits)
  qed
qed

lemma is_similar_fields:
  assumes "map_of a ''position'' = Some pa" "map_of b ''position'' = Some pb"
      and "map_of a ''viewangles'' = Some va" "map_of b ''viewangles'' = Some vb"
  shows "is_similar_lineup p q a b =
     bind_outcome (Some (calculate_distance pa pb)) (\<lambda>pos_distance.
     bind_outcome (calculate_angle_difference va vb) (\<lambda>angle_diff.
       returns (num_le pos_distance p \<and> num_le angle_diff q)))"
  using assms
  by (simp add: is_similar_lineup_def dict_contains_def dict_getitem_def bind_outcome_def)




section \<open>Termination\<close>

lemma finite_entry_number:
  "finite_entry v \<Longrightarrow> as_number v = Some n \<Longrightarrow> \<exists>r. n = Fin r"
  by (cases v rule: finite_entry.cases) (auto split: if_splits)

lemma finite_angles_getitem:
  "finite_angles v \<Longrightarrow> py_getitem v i = Inr x \<Longrightarrow> as_number x = Some n \<Longrightarrow> \<exists>r. n = Fin r"
proof (cases v)
  case (VList xs)
  assume "finite_angles v" "py_getitem v i = Inr x" "as_number x = Some n"
  with VList have "finite_entry x"
    by (auto simp: finite_angles_def list_all_length split: if_splits)
  then show ?thesis using \<open>as_number x = Some n\<close> by (rule finite_entry_number)
qed (auto split: if_splits)

lemma axis_diff_terminates:
  assumes "finite_angles a1" "finite_angles a2"
  shows "axis_diff a1 a2 i \<noteq> None"
proof (cases "py_getitem a1 i")
  case (Inl e)
  then show ?thesis by (simp add: axis_diff_def raises_def)
next
  case x: (Inr x)
  show ?thesis
  proof (cases "py_getitem a2 i")
    case (Inl e)
    with x show ?thesis by (simp add: axis_diff_def raises_def)
  next
    case y: (Inr y)
    show ?thesis
    proof (cases "py_sub x y")
      case (Inl e)
      with x y show ?thesis by (simp add: axis_diff_def raises_def)
    next
      case (Inr d)
      then obtain xn yn where n: "as_number x = Some xn" "as_number y = Some yn"
        and d: "d = num_sub xn yn"
        by (auto simp: py_sub_def split: option.splits)
      obtain rx ry where "xn = Fin rx" "yn = Fin ry"
        using finite_angles_getitem[OF assms(1) x n(1)] finite_angles_getitem[OF assms(2) y n(2)]
        by blast
      with d have "normalize_angle d = Some (Fin (norm_val (rx - ry)))"
        by (simp add: normalize_angle_Fin)
      with x y Inr show ?thesis by (simp add: axis_diff_def returns_def)
    qed
  qed
qed

lemma calculate_angle_difference_terminates:
  assumes "finite_angles a1" "finite_angles a2"
  shows "calculate_angle_difference a1 a2 \<noteq> None"
  using axis_diff_terminates[OF assms, of 0] axis_diff_terminates[OF assms, of 1]
  by (auto simp: calculate_angle_difference_def bind_outcome_def split: option.splits sum.splits)

lemma finite_viewangles_angles:
  "finite_viewangles l \<Longrightarrow> map_of l ''viewangles'' = Some v \<Longrightarrow> finite_angles v"
  by (auto simp: finite_viewangles_def finite_angles_def split: pyval.splits)

lemma is_similar_terminates:
  assumes "finite_viewangles l1" "finite_viewangles l2"
  shows "is_similar_lineup p q l1 l2 \<noteq> None"
proof (cases "missing_field l1 l2")
  case True
  then show ?thesis by (simp add: is_similar_metrics returns_def)
next
  case False
  then obtain pa pb va vb where f:
    "map_of l1 ''position'' = Some pa" "map_of l2 ''position'' = Some pb"
    "map_of l1 ''viewangles'' = Some va" "map_of l2 ''viewangles'' = Some vb"
    by (auto simp: missing_field_def dict_contains_def)
  have "calculate_angle_difference va vb \<noteq> None"
    using assms f finite_viewangles_angles calculate_angle_difference_terminates by blast
  then show ?thesis
    by (auto simp: is_similar_fields[OF f] bind_outcome_def returns_def
        split: option.splits sum.splits)
qed

lemma scan_result_terminates:
  "finite_viewangles c \<Longrightarrow> \<forall>l\<in>set R. finite_viewangles l \<Longrightarrow> scan_result p q c R \<noteq> None"
proof (induction R)
  case Nil
  then show ?case by (simp add: returns_def)
next
  case (Cons e R)
  then have "is_similar_lineup p q c e \<noteq> None" by (simp add: is_similar_terminates)
  with Cons show ?case
    by (auto simp: returns_def split: option.splits sum.splits bool.splits)
qed

lemma merge_from_terminates:
  "\<forall>l\<in>set R \<union> set cs. finite_viewangles l \<Longrightarrow> merge_from p q R cs \<noteq> None"
proof (induction cs arbitrary: R)
  case Nil
  then show ?case by simp
next
  case (Cons c cs)
  then have "scan_result p q c R \<noteq> None" by (simp add: scan_result_terminates)
  moreover have "\<And>dup. merge_from p q (if dup then R else R @ [c]) cs \<noteq> None"
    using Cons.prems by (intro Cons.IH) auto
  ultimately show ?case by (auto split: option.splits sum.splits)
qed

lemma merge_terminates:
  "\<forall>l\<in>set E \<union> set C. finite_viewangles l \<Longrightarrow> merge p q E C \<noteq> None"
  using merge_from_terminates[of E C p q]
  by (auto simp: merge_eq returns_def raises_def split: option.splits)

lemma merge_lineups_terminates:
  assumes "existing < length h" "new < length h"
      and "\<forall>l\<in>set (h ! existing) \<union> set (h ! new). finite_viewangles l"
  shows "merge_lineups p q h existing new \<noteq> None"
  using merge_from_terminates[OF assms(3), of p q]
  by (simp add: merge_lineups_eq[OF assms(1,2)])

lemma infinite_pitch_diverges:
  "calculate_angle_difference (VList [VNum PosInf, VNum (Fin 0)]) (angles2 (0, 0)) = None"
  by (simp add: calculate_angle_difference_def axis_diff_def py_sub_def angles2_def
      normalize_angle_PosInf bind_outcome_def)

section \<open>The store after a merge\<close>

lemma scan_result_decided:
  "\<forall>e\<in>set R. \<exists>b. is_similar_lineup p q c e = returns b \<Longrightarrow>
     scan_result p q c R = returns (list_ex (\<lambda>e. is_similar_lineup p q c e = returns True) R)"
proof (induction R)
  case Nil
  then show ?case by simp
next
  case (Cons e R)
  then obtain b where b: "is_similar_lineup p q c e = returns b" by auto
  show ?case
  proof (cases b)
    case True
    with b show ?thesis by (simp add: scan_Cons_True del: scan_result.simps(2))
  next
    case False
    with b have "is_similar_lineup p q c e \<noteq> returns True" by (simp add: returns_def)
    with b False Cons show ?thesis by (simp add: scan_Cons_False del: scan_result.simps(2))
  qed
qed

lemma merge_from_decided:
  "\<forall>c\<in>set cs. \<forall>e\<in>set R \<union> set cs. \<exists>b. is_similar_lineup p q c e = returns b \<Longrightarrow>
     merge_from p q R cs =
       Some (R @ spec_accepted (\<lambda>c e. is_similar_lineup p q c e = returns True) R cs, None)"
proof (induction cs arbitrary: R)
  case Nil
  then show ?case by simp
next
  case (Cons c cs)
  let ?sim = "\<lambda>c e. is_similar_lineup p q c e = returns True"
  have scan: "scan_result p q c R = returns (list_ex (?sim c) R)"
    using Cons.prems by (intro scan_result_decided) auto
  show ?case
  proof (cases "list_ex (?sim c) R")
    case True
    have "merge_from p q R cs = Some (R @ spec_accepted ?sim R cs, None)"
      using Cons.prems by (intro Cons.IH) auto
    with scan True show ?thesis by (simp add: returns_def)
  next
    case False
    have "merge_from p q (R @ [c]) cs = Some ((R @ [c]) @ spec_accepted ?sim (R @ [c]) cs, None)"
      using Cons.prems by (intro Cons.IH) auto
    with scan False show ?thesis by (simp add: returns_def)
  qed
qed

lemma spec_accepted_subseq: "subseq (spec_accepted sim R cs) cs"
  by (induction cs arbitrary: R) auto

lemma merge_lineups_frame:
  assumes "existing < length h" "new < length h"
      and "merge_lineups p q h existing new = Some (h', r)"
  shows "length h' = length h + 1 \<and> take (length h) h' = h"
  using assms(3) by (auto simp: merge_lineups_eq[OF assms(1,2)])

lemma line_lineup_well_formed: "well_formed (line_lineup x) (x, 0, 0) (0, 0)"
  by (simp add: well_formed_def line_lineup_def)

lemma line_lineup_similar:
  "is_similar_lineup (Fin 1) (Fin 5) (line_lineup x) (line_lineup y) = returns (\<bar>x - y\<bar> \<le> 1)"
  by (simp add: is_similar_well_formed[OF line_lineup_well_formed line_lineup_well_formed]
      spec_position_distance_def spec_distance_self)

lemma similar_line_lineup: "similar (Fin 1) (Fin 5) (line_lineup x) (line_lineup y) = (\<bar>x - y\<bar> \<le> 1)"
  by (simp add: similar_def line_lineup_similar returns_def)

text \<open>
  C6. \<^verbatim>\<open>merge_lineups\<close> changes no list object that existed before the call, neither the
  list of existing lineups nor the batch, also when it raises: it allocates one new list
  and works on that. Whenever every comparison of a candidate with an existing lineup or
  with a candidate returns a boolean, the call returns the new list, and the new list
  holds the existing lineups in their order followed by exactly the accepted candidates
  in the order of the batch, a candidate being accepted when no lineup of the result
  built before it is similar to it.
\<close>

theorem merge_leaves_existing_unchanged:
  assumes "existing < length h" and "new < length h"
  shows "((\<forall>c\<in>set (h ! new). \<forall>e\<in>set (h ! existing) \<union> set (h ! new).
             \<exists>b. is_similar_lineup p q c e = returns b)
          \<longrightarrow> merge_lineups p q h existing new =
               Some (h @ [h ! existing @ spec_accepted (similar p q) (h ! existing) (h ! new)],
                     Inr (length h)))
       \<and> subseq (spec_accepted (similar p q) (h ! existing) (h ! new)) (h ! new)
       \<and> (\<forall>h' r. merge_lineups p q h existing new = Some (h', r)
            \<longrightarrow> length h' = length h + 1 \<and> take (length h) h' = h)"
proof -
  have s: "similar p q = (\<lambda>c e. is_similar_lineup p q c e = returns True)"
    by (intro ext) (simp add: similar_def)
  have "(\<forall>c\<in>set (h ! new). \<forall>e\<in>set (h ! existing) \<union> set (h ! new).
             \<exists>b. is_similar_lineup p q c e = returns b)
          \<longrightarrow> merge_lineups p q h existing new =
               Some (h @ [h ! existing @ spec_accepted (similar p q) (h ! existing) (h ! new)],
                     Inr (length h))"
    by (simp add: merge_lineups_eq[OF assms] merge_from_decided s)
  moreover have "subseq (spec_accepted (similar p q) (h ! existing) (h ! new)) (h ! new)"
    by (rule spec_accepted_subseq)
  moreover have "\<forall>h' r. merge_lineups p q h existing new = Some (h', r)
            \<longrightarrow> length h' = length h + 1 \<and> take (length h) h' = h"
    using merge_lineups_frame[OF assms] by blast
  ultimately show ?thesis by blast
qed

theorem merge_leaves_existing_unchanged_witness:
  "(0::nat) < length [[line_lineup 10], [line_lineup 0, line_lineup 1, line_lineup 2]]
   \<and> (1::nat) < length [[line_lineup 10], [line_lineup 0, line_lineup 1, line_lineup 2]]
   \<and> merge_lineups (Fin 1) (Fin 5)
        [[line_lineup 10], [line_lineup 0, line_lineup 1, line_lineup 2]] 0 1 =
      Some ([[line_lineup 10], [line_lineup 0, line_lineup 1, line_lineup 2],
             [line_lineup 10, line_lineup 0, line_lineup 2]], Inr 2)"
proof -
  have a: "(0::nat) < length [[line_lineup 10], [line_lineup 0, line_lineup 1, line_lineup 2]]"
    and b: "(1::nat) < length [[line_lineup 10], [line_lineup 0, line_lineup 1, line_lineup 2]]"
    by simp_all
  let ?h = "[[line_lineup 10], [line_lineup 0, line_lineup 1, line_lineup 2]]"
  have decided: "\<forall>c\<in>set (?h ! 1). \<forall>e\<in>set (?h ! 0) \<union> set (?h ! 1).
      \<exists>b. is_similar_lineup (Fin 1) (Fin 5) c e = returns b"
    by (auto simp: line_lineup_similar)
  have "merge_lineups (Fin 1) (Fin 5) ?h 0 1 =
      Some (?h @ [?h ! 0 @ spec_accepted (similar (Fin 1) (Fin 5)) (?h ! 0) (?h ! 1)],
            Inr (length ?h))"
    using merge_leaves_existing_unchanged[OF a b, of "Fin 1" "Fin 5"] decided by blast
  then show ?thesis by (simp add: similar_line_lineup)
qed

end
